theory Spec2Isabelle
  imports Main
begin

section \<open>Data model (types.ts)\<close>

text \<open>
  \<^verbatim>\<open>ITreeNode\<close> has the fields \<^verbatim>\<open>id\<close>, \<^verbatim>\<open>name\<close>, \<^verbatim>\<open>children?: ITreeNode[] | true\<close>,
  \<^verbatim>\<open>isExpanded?: boolean\<close>, \<^verbatim>\<open>hasChildren?: boolean\<close> and \<^verbatim>\<open>parentId: string | null\<close>.
  The three states of \<^verbatim>\<open>children\<close> are \<open>Absent\<close> (\<^verbatim>\<open>undefined\<close>), \<open>Unloaded\<close>
  (the value \<^verbatim>\<open>true\<close>) and \<open>Loaded\<close> (an array). An optional boolean is a
  \<open>bool option\<close>, \<open>None\<close> being \<^verbatim>\<open>undefined\<close>; a nullable string is a
  \<open>string option\<close>.
\<close>

datatype node =
  Node (node_id: string) (node_name: string) (node_children: children)
       (node_isExpanded: "bool option") (node_hasChildren: "bool option")
       (node_parentId: "string option")
and children = Absent | Unloaded | Loaded "node list"

type_synonym TreeData = "node list"

record DragItem =
  drag_id :: string
  drag_parentId :: "string option"

text \<open>Object spread with one overridden field: \<^verbatim>\<open>{ ...node, children: cs }\<close> and so on.\<close>

fun set_children :: "children \<Rightarrow> node \<Rightarrow> node" where
  "set_children c (Node i nm _ e h p) = Node i nm c e h p"

fun set_isExpanded :: "bool option \<Rightarrow> node \<Rightarrow> node" where
  "set_isExpanded e (Node i nm c _ h p) = Node i nm c e h p"

fun set_hasChildren :: "bool option \<Rightarrow> node \<Rightarrow> node" where
  "set_hasChildren h (Node i nm c e _ p) = Node i nm c e h p"

fun set_parentId :: "string option \<Rightarrow> node \<Rightarrow> node" where
  "set_parentId p (Node i nm c e h _) = Node i nm c e h p"

text \<open>
  JavaScript truthiness of a \<^verbatim>\<open>string | null\<close>: \<^verbatim>\<open>null\<close> and the empty string are
  falsy, every other string is truthy. \<open>truthyId\<close> is the value of a truthy one and
  \<open>None\<close> for a falsy one (\<^verbatim>\<open>x || null\<close>). An array is truthy even when it is empty,
  so \<^verbatim>\<open>node.children && Array.isArray(node.children)\<close> holds exactly for \<open>Loaded\<close>.
\<close>

fun truthyId :: "string option \<Rightarrow> string option" where
  "truthyId None = None"
| "truthyId (Some s) = (if s = [] then None else Some s)"

lemma children_size [termination_simp]:
  "node_children n = Loaded cs \<Longrightarrow> size_list size cs < size n"
  by (cases n) simp

section \<open>Lookup: findNodeAndLocation\<close>

record NodeLocation =
  loc_node :: node
  loc_parent :: "node option"
  loc_index :: nat
  loc_siblings :: "node list"

text \<open>
  The \<^verbatim>\<open>for\<close> loop of \<^verbatim>\<open>findNodeAndLocation\<close>, for a truthy \<^verbatim>\<open>nodeId\<close>: the list argument
  is the part of \<^verbatim>\<open>tree\<close> from index \<open>i\<close> on. The recursive call on
  \<^verbatim>\<open>node.children\<close> passes the node as parent and its children as siblings, and
  starts at index 0.
\<close>

fun findLoop :: "string \<Rightarrow> node option \<Rightarrow> node list \<Rightarrow> nat \<Rightarrow> node list \<Rightarrow> NodeLocation option" where
  "findLoop nodeId parent siblings i [] = None"
| "findLoop nodeId parent siblings i (n # rest) =
     (if node_id n = nodeId then
        Some \<lparr>loc_node = n, loc_parent = parent, loc_index = i, loc_siblings = siblings\<rparr>
      else (case node_children n of
          Loaded cs \<Rightarrow>
            (if node_isExpanded n = Some True then
               (case findLoop nodeId (Some n) cs 0 cs of
                  Some found \<Rightarrow> Some found
                | None \<Rightarrow> findLoop nodeId parent siblings (Suc i) rest)
             else findLoop nodeId parent siblings (Suc i) rest)
        | _ \<Rightarrow> findLoop nodeId parent siblings (Suc i) rest))"

definition findNodeAndLocation ::
  "TreeData \<Rightarrow> string option \<Rightarrow> node option \<Rightarrow> node list \<Rightarrow> NodeLocation option" where
  "findNodeAndLocation tree nodeId parent siblings =
     (case nodeId of
        None \<Rightarrow> None
      | Some s \<Rightarrow> if s = [] then None else findLoop s parent siblings 0 tree)"

section \<open>Update, insertion and removal\<close>

text \<open>
  \<^verbatim>\<open>updateNodeInTree\<close> maps over the sequence: the node with the id is replaced by
  \<^verbatim>\<open>updater(node)\<close> (no descent below it), a node with a loaded children array is
  rebuilt around the updated children, any other node is returned as it is.
\<close>

fun updateNodeInTree :: "TreeData \<Rightarrow> string \<Rightarrow> (node \<Rightarrow> node) \<Rightarrow> TreeData" where
  "updateNodeInTree tree nodeId updater =
     map (\<lambda>node.
        if node_id node = nodeId then updater node
        else (case node_children node of
            Loaded cs \<Rightarrow> set_children (Loaded (updateNodeInTree cs nodeId updater)) node
          | _ \<Rightarrow> node)) tree"

text \<open>The updater closure of \<^verbatim>\<open>addNodeToTree\<close> (the one of the child drop is the same).\<close>

definition appendChild :: "node \<Rightarrow> node \<Rightarrow> node" where
  "appendChild newNode parentNode =
     (let childrenArray = (case node_children parentNode of Loaded cs \<Rightarrow> cs | _ \<Rightarrow> [])
      in set_isExpanded (Some True) (set_hasChildren (Some True)
           (set_children (Loaded (childrenArray @ [set_parentId (Some (node_id parentNode)) newNode]))
              parentNode)))"

definition addNodeToTree :: "TreeData \<Rightarrow> string option \<Rightarrow> node \<Rightarrow> TreeData" where
  "addNodeToTree tree parentId newNode =
     (case parentId of
        None \<Rightarrow> tree @ [set_parentId None newNode]
      | Some pid \<Rightarrow> updateNodeInTree tree pid (appendChild newNode))"

text \<open>
  \<^verbatim>\<open>removeNodeFromTree\<close>: filter, then map; every surviving node with a loaded children
  array gets the filtered children and \<^verbatim>\<open>hasChildren: updatedChildren.length > 0\<close>.
\<close>

fun removeNodeFromTree :: "TreeData \<Rightarrow> string \<Rightarrow> TreeData" where
  "removeNodeFromTree tree nodeIdToRemove =
     map (\<lambda>node.
        (case node_children node of
            Loaded cs \<Rightarrow>
              (let updatedChildren = removeNodeFromTree cs nodeIdToRemove
               in set_hasChildren (Some (length updatedChildren > 0))
                    (set_children (Loaded updatedChildren) node))
          | _ \<Rightarrow> node))
       (filter (\<lambda>node. node_id node \<noteq> nodeIdToRemove) tree)"

section \<open>Ancestor test\<close>

fun findDescendant :: "string \<Rightarrow> TreeData \<Rightarrow> bool" where
  "findDescendant descendantId [] = False"
| "findDescendant descendantId (n # rest) =
     (if node_id n = descendantId then True
      else (case node_children n of
          Loaded cs \<Rightarrow>
            (if findDescendant descendantId cs then True else findDescendant descendantId rest)
        | _ \<Rightarrow> findDescendant descendantId rest))"

definition isAncestor :: "string \<Rightarrow> string \<Rightarrow> TreeData \<Rightarrow> bool" where
  "isAncestor ancestorId descendantId nodes =
     (case findNodeAndLocation nodes (Some ancestorId) None [] of
        None \<Rightarrow> False
      | Some loc \<Rightarrow>
          (case node_children (loc_node loc) of
             Loaded cs \<Rightarrow> findDescendant descendantId cs
           | _ \<Rightarrow> False))"

section \<open>Move by drag and drop: handleDrop\<close>

datatype dropPosition = Above | Below | Child

datatype error = TypeError

record state =
  treeData :: TreeData
  draggedItem :: "DragItem option"

text \<open>
  \<^verbatim>\<open>findNodeDeepCopy\<close> searches every loaded children array, expanded or not. The copy
  it returns (\<^verbatim>\<open>JSON.parse(JSON.stringify(node))\<close>) has the same fields as the node
  and so is the same value here.
\<close>

fun findNodeDeepCopy :: "TreeData \<Rightarrow> string \<Rightarrow> node option" where
  "findNodeDeepCopy [] i = None"
| "findNodeDeepCopy (n # rest) i =
     (if node_id n = i then Some n
      else (case node_children n of
          Loaded cs \<Rightarrow>
            (case findNodeDeepCopy cs i of
               Some found \<Rightarrow> Some found
             | None \<Rightarrow> findNodeDeepCopy rest i)
        | _ \<Rightarrow> findNodeDeepCopy rest i))"

text \<open>\<^verbatim>\<open>xs.splice(i, 0, x)\<close>: insert at index \<open>i\<close>, at the end when \<open>i\<close> is beyond it.\<close>

definition splice_at :: "nat \<Rightarrow> 'a \<Rightarrow> 'a list \<Rightarrow> 'a list" where
  "splice_at i x xs = take i xs @ x # drop i xs"

text \<open>
  The target of a sibling drop: the new sibling sequence before the splice, the new
  parent id and the insert index. With a truthy target that is not found the three
  keep their initial values \<^verbatim>\<open>[]\<close>, \<^verbatim>\<open>null\<close>, \<^verbatim>\<open>0\<close>. Spreading \<^verbatim>\<open>parent.children\<close>
  raises a TypeError when it is \<^verbatim>\<open>true\<close>.
\<close>

definition siblingTarget ::
  "TreeData \<Rightarrow> string option \<Rightarrow> dropPosition \<Rightarrow> error + (node list \<times> string option \<times> nat)" where
  "siblingTarget treeAfterRemoval targetNodeId dropPosition =
     (case truthyId targetNodeId of
        Some t \<Rightarrow>
          (case findNodeAndLocation treeAfterRemoval (Some t) None [] of
             Some loc \<Rightarrow>
               (let newParentId =
                      (case loc_parent loc of
                         None \<Rightarrow> None
                       | Some p \<Rightarrow> truthyId (Some (node_id p)));
                    insertIndex =
                      (if dropPosition = Above then loc_index loc else loc_index loc + 1)
                in (case newParentId of
                      None \<Rightarrow> Inr (treeAfterRemoval, newParentId, insertIndex)
                    | Some _ \<Rightarrow>
                        (case loc_parent loc of
                           None \<Rightarrow> Inr ([], newParentId, insertIndex)
                         | Some p \<Rightarrow>
                             (case node_children p of
                                Loaded cs \<Rightarrow> Inr (cs, newParentId, insertIndex)
                              | Absent \<Rightarrow> Inr ([], newParentId, insertIndex)
                              | Unloaded \<Rightarrow> Inl TypeError))))
           | None \<Rightarrow> Inr ([], None, 0))
      | None \<Rightarrow> Inr (treeAfterRemoval, None, length treeAfterRemoval))"

text \<open>The insertion step of the state updater, after the removal.\<close>

definition insertDragged ::
  "TreeData \<Rightarrow> node \<Rightarrow> string option \<Rightarrow> dropPosition \<Rightarrow> error + TreeData" where
  "insertDragged treeAfterRemoval nodeToInsert targetNodeId dropPosition =
     (case (if dropPosition = Child then truthyId targetNodeId else None) of
        Some t \<Rightarrow>
          (case findNodeAndLocation treeAfterRemoval (Some t) None [] of
             Some targetParentLocation \<Rightarrow>
               Inr (updateNodeInTree treeAfterRemoval t (appendChild nodeToInsert))
           | None \<Rightarrow> Inr treeAfterRemoval)
      | None \<Rightarrow>
          (case siblingTarget treeAfterRemoval targetNodeId dropPosition of
             Inl e \<Rightarrow> Inl e
           | Inr (siblings0, newParentId, insertIndex) \<Rightarrow>
               (let newNodeWithCorrectParent = set_parentId newParentId nodeToInsert;
                    newSiblings = splice_at insertIndex newNodeWithCorrectParent siblings0
                in (case truthyId newParentId of
                      Some pid \<Rightarrow>
                        Inr (updateNodeInTree treeAfterRemoval pid
                               (\<lambda>parentNode. set_hasChildren (Some True)
                                  (set_children (Loaded newSiblings) parentNode)))
                    | None \<Rightarrow> Inr newSiblings))))"

text \<open>The function passed to \<^verbatim>\<open>setTreeData\<close>.\<close>

definition dropUpdater ::
  "TreeData \<Rightarrow> string \<Rightarrow> string option \<Rightarrow> dropPosition \<Rightarrow> error + TreeData" where
  "dropUpdater prevTreeData draggedId targetNodeId dropPosition =
     (case findNodeDeepCopy prevTreeData draggedId of
        None \<Rightarrow> Inr prevTreeData
      | Some draggedNode \<Rightarrow>
          (if (case truthyId targetNodeId of
                 Some t \<Rightarrow> isAncestor draggedId t prevTreeData
               | None \<Rightarrow> False)
           then Inr prevTreeData
           else insertDragged (removeNodeFromTree prevTreeData draggedId) draggedNode
                  targetNodeId dropPosition))"

text \<open>
  \<^verbatim>\<open>handleDrop\<close> on the component state: the tree and the active drag. The drag is
  cleared on every path that returns.
\<close>

definition handleDrop :: "state \<Rightarrow> string option \<Rightarrow> dropPosition \<Rightarrow> error + state" where
  "handleDrop st targetNodeId dropPosition =
     (case draggedItem st of
        None \<Rightarrow> Inr (st\<lparr>draggedItem := None\<rparr>)
      | Some d \<Rightarrow>
          (if Some (drag_id d) = targetNodeId then Inr (st\<lparr>draggedItem := None\<rparr>)
           else (case dropUpdater (treeData st) (drag_id d) targetNodeId dropPosition of
                   Inl e \<Rightarrow> Inl e
                 | Inr t \<Rightarrow> Inr \<lparr>treeData = t, draggedItem = None\<rparr>)))"

section \<open>Object identity in updateNodeInTree\<close>

text \<open>
  Whether \<^verbatim>\<open>updateNodeInTree\<close> returns the identical object or a copy is not visible on
  values, so here every node object carries the address it was allocated at. The
  function never writes to an existing object; it allocates one object per spread
  \<^verbatim>\<open>{ ...node, children: ... }\<close>, at the next free address, and two references are
  identical exactly when the objects are equal, address included. (Every \<^verbatim>\<open>map\<close> also
  returns a new array; arrays carry no address here.) The object \<^verbatim>\<open>updater\<close> returns is
  whatever the caller's function returns, at an address of its choice.
\<close>

datatype heapNode =
  HNode (h_ref: nat) (h_id: string) (h_name: string) (h_children: heapChildren)
        (h_isExpanded: "bool option") (h_hasChildren: "bool option")
        (h_parentId: "string option")
and heapChildren = HAbsent | HUnloaded | HLoaded "heapNode list"

lemma heapChildren_size [termination_simp]:
  "h_children n = HLoaded cs \<Longrightarrow> size_list size cs < size n"
  by (cases n) simp

text \<open>
  The callback of the \<^verbatim>\<open>map\<close> (\<open>updateCallback\<close>) and the \<^verbatim>\<open>map\<close> itself, left to right,
  with the next free address passed along. The object of a spread is created before
  its \<^verbatim>\<open>children\<close> property is evaluated.
\<close>

fun updateCallback :: "heapNode \<Rightarrow> string \<Rightarrow> (heapNode \<Rightarrow> heapNode) \<Rightarrow> nat \<Rightarrow> heapNode \<times> nat"
  and updateNodeInTree_heap ::
    "heapNode list \<Rightarrow> string \<Rightarrow> (heapNode \<Rightarrow> heapNode) \<Rightarrow> nat \<Rightarrow> heapNode list \<times> nat" where
  "updateCallback n nodeId updater next =
     (if h_id n = nodeId then (updater n, next)
      else (case h_children n of
          HLoaded cs \<Rightarrow>
            (case updateNodeInTree_heap cs nodeId updater (Suc next) of
               (cs', next') \<Rightarrow>
                 (HNode next (h_id n) (h_name n) (HLoaded cs') (h_isExpanded n)
                    (h_hasChildren n) (h_parentId n), next'))
        | _ \<Rightarrow> (n, next)))"
| "updateNodeInTree_heap [] nodeId updater next = ([], next)"
| "updateNodeInTree_heap (n # rest) nodeId updater next =
     (case updateCallback n nodeId updater next of
        (n', next') \<Rightarrow>
          (case updateNodeInTree_heap rest nodeId updater next' of
             (rest', next'') \<Rightarrow> (n' # rest', next'')))"

text \<open>The value of an object: the node without the addresses.\<close>

fun erase :: "heapNode \<Rightarrow> node" where
  "erase (HNode r i nm HAbsent e h p) = Node i nm Absent e h p"
| "erase (HNode r i nm HUnloaded e h p) = Node i nm Unloaded e h p"
| "erase (HNode r i nm (HLoaded cs) e h p) = Node i nm (Loaded (map erase cs)) e h p"





section \<open>Observers on trees\<close>

text \<open>Every node of a tree, at any depth below loaded children arrays, in preorder.\<close>

fun allNodes :: "TreeData \<Rightarrow> node list" where
  "allNodes [] = []"
| "allNodes (n # rest) =
     n # (case node_children n of Loaded cs \<Rightarrow> allNodes cs | _ \<Rightarrow> []) @ allNodes rest"

definition allIds :: "TreeData \<Rightarrow> string list" where
  "allIds tree = map node_id (allNodes tree)"

definition countNodes :: "TreeData \<Rightarrow> nat" where
  "countNodes tree = length (allNodes tree)"

text \<open>What \<^verbatim>\<open>removeNodeFromTree\<close> writes into \<^verbatim>\<open>hasChildren\<close> of a node with a loaded
  children array: \<^verbatim>\<open>updatedChildren.length > 0\<close>.\<close>

definition hasChildrenRecomputed :: "node \<Rightarrow> bool" where
  "hasChildrenRecomputed n =
     (case node_children n of
        Loaded cs \<Rightarrow> node_hasChildren n = Some (length cs > 0)
      | _ \<Rightarrow> True)"

text \<open>The loaded children of a node, empty when they are absent or unloaded.\<close>

definition loadedChildren :: "node \<Rightarrow> node list" where
  "loadedChildren n = (case node_children n of Loaded cs \<Rightarrow> cs | _ \<Rightarrow> [])"

text \<open>
  The nodes that can be reached from a root through ancestors that are all expanded
  and have a loaded children array.
\<close>

inductive visible :: "TreeData \<Rightarrow> node \<Rightarrow> bool" for tree :: TreeData where
  root: "n \<in> set tree \<Longrightarrow> visible tree n"
| child: "visible tree p \<Longrightarrow> node_isExpanded p = Some True \<Longrightarrow> node_children p = Loaded cs \<Longrightarrow>
          n \<in> set cs \<Longrightarrow> visible tree n"

section \<open>Example trees\<close>

definition tree_stale :: TreeData where
  "tree_stale =
     [Node ''a'' ''A''
        (Loaded [Node ''b'' ''B'' (Loaded []) (Some False) (Some False) (Some ''a'')])
        (Some True) (Some False) None]"

definition tree_ab :: TreeData where
  "tree_ab =
     [Node ''a'' ''A''
        (Loaded [Node ''b'' ''B'' (Loaded []) (Some False) (Some False) (Some ''a'')])
        (Some True) (Some True) None]"

definition tree_abcd :: TreeData where
  "tree_abcd =
     [Node ''a'' ''A''
        (Loaded
           [Node ''b'' ''B''
              (Loaded [Node ''d'' ''D'' (Loaded []) (Some False) (Some False) (Some ''b'')])
              (Some False) (Some True) (Some ''a''),
            Node ''c'' ''C'' (Loaded []) (Some False) (Some False) (Some ''a'')])
        (Some True) (Some True) None]"

definition tree_lazy :: TreeData where
  "tree_lazy =
     [Node ''a'' ''A'' Unloaded (Some False) (Some True) None,
      Node ''c'' ''C'' (Loaded []) (Some False) (Some False) None]"

definition node_x :: node where
  "node_x = Node ''x'' ''X'' (Loaded []) (Some False) (Some False) (Some ''a'')"

definition tree_empty_id :: TreeData where
  "tree_empty_id = [Node '''' ''A'' (Loaded []) (Some False) (Some False) None]"

definition tree_collapsed :: TreeData where
  "tree_collapsed =
     [Node ''r'' ''R''
        (Loaded
           [Node ''a'' ''A''
              (Loaded [Node ''d'' ''D'' (Loaded []) (Some False) (Some False) (Some ''a'')])
              (Some True) (Some True) (Some ''r'')])
        (Some False) (Some True) None]"

definition tree_single :: TreeData where
  "tree_single = [Node ''a'' ''A'' (Loaded []) (Some False) (Some False) None]"

definition drag :: "string \<Rightarrow> string option \<Rightarrow> DragItem option" where
  "drag i p = Some \<lparr>drag_id = i, drag_parentId = p\<rparr>"

definition tree_roots :: TreeData where
  "tree_roots =
     [Node ''a'' ''A'' (Loaded []) (Some False) (Some False) None,
      Node ''b'' ''B'' (Loaded []) (Some False) (Some False) None]"

definition tree_abc :: TreeData where
  "tree_abc =
     [Node ''a'' ''A''
        (Loaded
           [Node ''b'' ''B'' (Loaded []) (Some False) (Some False) (Some ''a''),
            Node ''c'' ''C'' (Loaded []) (Some False) (Some False) (Some ''a'')])
        (Some True) (Some True) None]"



section \<open>Basic facts\<close>

lemma tree_induct [case_names Nil Cons]:
  assumes "P []"
    and "\<And>n rest. (\<And>cs. node_children n = Loaded cs \<Longrightarrow> P cs) \<Longrightarrow> P rest \<Longrightarrow> P (n # rest)"
  shows "P tree"
  using assms by (rule allNodes.induct)

lemma removeNodeFromTree_Nil [simp]: "removeNodeFromTree [] x = []"
  by simp

lemma removeNodeFromTree_Cons [simp]:
  "removeNodeFromTree (n # rest) x =
     (if node_id n = x then removeNodeFromTree rest x
      else (case node_children n of
              Loaded cs \<Rightarrow>
                set_hasChildren (Some (length (removeNodeFromTree cs x) > 0))
                  (set_children (Loaded (removeNodeFromTree cs x)) n)
            | _ \<Rightarrow> n) # removeNodeFromTree rest x)"
  by (simp add: Let_def split: children.split)

lemmas [simp del] = removeNodeFromTree.simps

lemma allNodes_append [simp]: "allNodes (xs @ ys) = allNodes xs @ allNodes ys"
  by (induction xs) auto

lemma sel_set [simp]:
  "node_id (set_children c n) = node_id n"
  "node_id (set_hasChildren h n) = node_id n"
  "node_id (set_isExpanded e n) = node_id n"
  "node_id (set_parentId p n) = node_id n"
  "node_children (set_children c n) = c"
  "node_children (set_hasChildren h n) = node_children n"
  "node_children (set_isExpanded e n) = node_children n"
  "node_children (set_parentId p n) = node_children n"
  "node_hasChildren (set_children c n) = node_hasChildren n"
  "node_hasChildren (set_hasChildren h n) = h"
  "node_hasChildren (set_isExpanded e n) = node_hasChildren n"
  "node_hasChildren (set_parentId p n) = node_hasChildren n"
  "node_isExpanded (set_children c n) = node_isExpanded n"
  "node_isExpanded (set_hasChildren h n) = node_isExpanded n"
  "node_isExpanded (set_isExpanded e n) = e"
  "node_isExpanded (set_parentId p n) = node_isExpanded n"
  "node_parentId (set_children c n) = node_parentId n"
  "node_parentId (set_hasChildren h n) = node_parentId n"
  "node_parentId (set_isExpanded e n) = node_parentId n"
  "node_parentId (set_parentId p n) = p"
  "node_name (set_children c n) = node_name n"
  "node_name (set_hasChildren h n) = node_name n"
  "node_name (set_isExpanded e n) = node_name n"
  "node_name (set_parentId p n) = node_name n"
  by (cases n; simp)+

section \<open>Removal: claims C9, C4 and C5\<close>

lemma remove_normalizes:
  "n \<in> set (allNodes (removeNodeFromTree tree x)) \<Longrightarrow> hasChildrenRecomputed n"
proof (induction tree arbitrary: n rule: tree_induct)
  case Nil
  then show ?case by simp
next
  case (Cons m rest)
  show ?case
  proof (cases "node_id m = x")
    case True
    with Cons show ?thesis by simp
  next
    case False
    show ?thesis
    proof (cases "node_children m")
      case (Loaded cs)
      with False Cons.prems Cons.IH(1)[OF Loaded] Cons.IH(2) show ?thesis
        by (auto simp: hasChildrenRecomputed_def)
    next
      case Absent
      with False Cons.prems Cons.IH(2) show ?thesis
        by (auto simp: hasChildrenRecomputed_def)
    next
      case Unloaded
      with False Cons.prems Cons.IH(2) show ?thesis
        by (auto simp: hasChildrenRecomputed_def)
    qed
  qed
qed

lemma remove_absent_ids:
  "x \<notin> set (allIds tree) \<Longrightarrow> allIds (removeNodeFromTree tree x) = allIds tree"
  unfolding allIds_def
  by (induction tree rule: tree_induct) (auto split: children.splits)

lemma remove_absent_normalized:
  "x \<notin> set (allIds tree) \<Longrightarrow> \<forall>n\<in>set (allNodes tree). hasChildrenRecomputed n \<Longrightarrow>
   removeNodeFromTree tree x = tree"
proof (induction tree rule: tree_induct)
  case Nil
  then show ?case by simp
next
  case (Cons m rest)
  from Cons.prems have rest: "removeNodeFromTree rest x = rest"
    by (intro Cons.IH(2)) (auto simp: allIds_def)
  from Cons.prems have ne: "node_id m \<noteq> x" by (auto simp: allIds_def)
  show ?case
  proof (cases "node_children m")
    case (Loaded cs)
    from Cons.prems Loaded have "removeNodeFromTree cs x = cs"
      by (intro Cons.IH(1)[OF Loaded]) (auto simp: allIds_def)
    moreover from Cons.prems Loaded have "node_hasChildren m = Some (length cs > 0)"
      by (auto simp: hasChildrenRecomputed_def)
    ultimately show ?thesis using Loaded ne rest by (cases m) simp
  qed (use ne rest in simp_all)
qed

text \<open>
  Claim C9: for every tree and every id, present or absent, every node of the tree
  returned by \<^verbatim>\<open>removeNodeFromTree\<close> whose children are a loaded array has
  \<^verbatim>\<open>hasChildren\<close> equal to (the array is non-empty), throughout the tree.
\<close>

theorem C9_remove_recomputes_hasChildren:
  "\<forall>n\<in>set (allNodes (removeNodeFromTree tree x)).
     \<forall>cs. node_children n = Loaded cs \<longrightarrow> node_hasChildren n = Some (cs \<noteq> [])"
proof (intro ballI allI impI)
  fix n cs
  assume "n \<in> set (allNodes (removeNodeFromTree tree x))" and c: "node_children n = Loaded cs"
  then have "hasChildrenRecomputed n" by (simp add: remove_normalizes)
  with c show "node_hasChildren n = Some (cs \<noteq> [])"
    by (simp add: hasChildrenRecomputed_def)
qed

theorem C9_witness:
  "node_hasChildren (hd tree_stale) = Some False
   \<and> hd tree_ab \<in> set (allNodes (removeNodeFromTree tree_stale ''zzz''))
   \<and> node_children (hd tree_ab)
       = Loaded [Node ''b'' ''B'' (Loaded []) (Some False) (Some False) (Some ''a'')]
   \<and> node_hasChildren (hd tree_ab) = Some True"
proof -
  have r: "removeNodeFromTree tree_stale ''zzz'' = tree_ab"
    by (simp add: tree_stale_def tree_ab_def)
  have m: "hd tree_ab \<in> set (allNodes tree_ab)" by (simp add: tree_ab_def)
  have c: "node_children (hd tree_ab)
      = Loaded [Node ''b'' ''B'' (Loaded []) (Some False) (Some False) (Some ''a'')]"
    by (simp add: tree_ab_def)
  from C9_remove_recomputes_hasChildren [of tree_stale "''zzz''"] r m c
  have "node_hasChildren (hd tree_ab) = Some True" by auto
  with r m c show ?thesis by (simp add: tree_stale_def)
qed

text \<open>
  Claim C4 as stated (removing an absent id returns an equal tree) fails on a tree with
  a stale \<^verbatim>\<open>hasChildren\<close> flag: the flag is recomputed.
\<close>

theorem C4_counterexample:
  "''zzz'' \<notin> set (allIds tree_stale) \<and> removeNodeFromTree tree_stale ''zzz'' \<noteq> tree_stale"
  by (simp add: tree_stale_def allIds_def)

text \<open>
  Claim C4, amended: for an id that occurs nowhere in the tree, \<^verbatim>\<open>removeNodeFromTree\<close>
  returns a tree equal to the input exactly when every node with a loaded children
  array already has \<^verbatim>\<open>hasChildren\<close> equal to (the array is non-empty).
\<close>

theorem C4_remove_absent:
  "x \<notin> set (allIds tree) \<Longrightarrow>
   (removeNodeFromTree tree x = tree) = (\<forall>n\<in>set (allNodes tree). hasChildrenRecomputed n)"
proof
  assume "removeNodeFromTree tree x = tree"
  then have "allNodes (removeNodeFromTree tree x) = allNodes tree" by simp
  then show "\<forall>n\<in>set (allNodes tree). hasChildrenRecomputed n"
    using remove_normalizes [of _ tree x] by auto
next
  assume "x \<notin> set (allIds tree)" "\<forall>n\<in>set (allNodes tree). hasChildrenRecomputed n"
  then show "removeNodeFromTree tree x = tree" by (rule remove_absent_normalized)
qed

theorem C4_witness:
  "''zzz'' \<notin> set (allIds tree_ab) \<and> removeNodeFromTree tree_ab ''zzz'' = tree_ab"
proof -
  have a: "''zzz'' \<notin> set (allIds tree_ab)" by (simp add: tree_ab_def allIds_def)
  have "\<forall>n\<in>set (allNodes tree_ab). hasChildrenRecomputed n"
    by (simp add: tree_ab_def hasChildrenRecomputed_def)
  with C4_remove_absent [OF a] a show ?thesis by simp
qed

lemma allNodes_Cons: "allNodes (n # rest) = n # allNodes (loadedChildren n) @ allNodes rest"
  by (simp add: loadedChildren_def split: children.split)

lemma allIds_Nil [simp]: "allIds [] = []"
  by (simp add: allIds_def)

lemma allIds_Cons: "allIds (n # rest) = node_id n # allIds (loadedChildren n) @ allIds rest"
  by (simp add: allIds_def loadedChildren_def split: children.split)

lemma allIds_single: "allIds [n] = node_id n # allIds (loadedChildren n)"
  by (simp add: allIds_Cons)

lemma allIds_append [simp]: "allIds (xs @ ys) = allIds xs @ allIds ys"
  by (simp add: allIds_def)

lemma find_None_iff: "findNodeDeepCopy tree x = None \<longleftrightarrow> x \<notin> set (allIds tree)"
  by (induction tree rule: tree_induct)
     (auto simp: allIds_Cons loadedChildren_def split: children.splits option.splits)

lemma find_Some_id: "findNodeDeepCopy tree x = Some X \<Longrightarrow> node_id X = x"
  by (induction tree rule: tree_induct) (auto split: children.splits option.splits if_splits)

lemma find_Some_ids:
  "findNodeDeepCopy tree x = Some X \<Longrightarrow> \<exists>pre post. allIds tree = pre @ allIds [X] @ post"
proof (induction tree rule: tree_induct)
  case Nil
  then show ?case by simp
next
  case (Cons n rest)
  show ?case
  proof (cases "node_id n = x")
    case True
    with Cons.prems have "X = n" by simp
    then have "allIds (n # rest) = [] @ allIds [X] @ allIds rest"
      by (simp add: allIds_Cons)
    then show ?thesis by blast
  next
    case False
    show ?thesis
    proof (cases "findNodeDeepCopy (loadedChildren n) x")
      case (Some Y)
      with False Cons.prems have XY: "Y = X" and L: "node_children n = Loaded (loadedChildren n)"
        by (auto simp: loadedChildren_def split: children.splits)
      from Cons.IH(1)[OF L] Some XY obtain pre post
        where "allIds (loadedChildren n) = pre @ allIds [X] @ post" by blast
      then have "allIds (n # rest) = (node_id n # pre) @ allIds [X] @ (post @ allIds rest)"
        by (simp add: allIds_Cons)
      then show ?thesis by blast
    next
      case None
      with False Cons.prems have "findNodeDeepCopy rest x = Some X"
        by (auto simp: loadedChildren_def split: children.splits)
      from Cons.IH(2)[OF this] obtain pre post
        where "allIds rest = pre @ allIds [X] @ post" by blast
      then have "allIds (n # rest) =
          (node_id n # allIds (loadedChildren n) @ pre) @ allIds [X] @ post"
        by (simp add: allIds_Cons)
      then show ?thesis by blast
    qed
  qed
qed

lemma remove_ids_filter:
  "distinct (allIds tree) \<Longrightarrow> findNodeDeepCopy tree x = Some X \<Longrightarrow>
   allIds (removeNodeFromTree tree x) = filter (\<lambda>i. i \<notin> set (allIds [X])) (allIds tree)"
proof (induction tree rule: tree_induct)
  case Nil
  then show ?case by simp
next
  case (Cons n rest)
  let ?cs = "loadedChildren n"
  from Cons.prems(1) have d: "distinct (allIds ?cs)" "distinct (allIds rest)"
    "node_id n \<notin> set (allIds ?cs)" "node_id n \<notin> set (allIds rest)"
    "set (allIds ?cs) \<inter> set (allIds rest) = {}"
    by (auto simp: allIds_Cons)
  show ?case
  proof (cases "node_id n = x")
    case True
    with Cons.prems have X: "X = n" by simp
    from True d have "x \<notin> set (allIds rest)" by simp
    then have "allIds (removeNodeFromTree rest x) = allIds rest" by (rule remove_absent_ids)
    moreover have "filter (\<lambda>i. i \<notin> set (allIds [n])) (allIds rest) = allIds rest"
      using d by (auto simp: allIds_single filter_id_conv)
    moreover have "filter (\<lambda>i. i \<notin> set (allIds [n])) (allIds ?cs) = []"
      by (auto simp: allIds_single filter_empty_conv)
    ultimately show ?thesis using True X by (simp add: allIds_Cons allIds_single)
  next
    case False
    have rm: "allIds (removeNodeFromTree (n # rest) x) =
        node_id n # allIds (removeNodeFromTree ?cs x) @ allIds (removeNodeFromTree rest x)"
      using False by (simp add: allIds_Cons loadedChildren_def split: children.split)
    show ?thesis
    proof (cases "findNodeDeepCopy ?cs x")
      case (Some Y)
      with False Cons.prems have XY: "Y = X" and L: "node_children n = Loaded ?cs"
        by (auto simp: loadedChildren_def split: children.splits)
      from find_Some_ids Some XY obtain pre post
        where pp: "allIds ?cs = pre @ allIds [X] @ post" by blast
      then have sub: "set (allIds [X]) \<subseteq> set (allIds ?cs)" by auto
      from Some have "x \<in> set (allIds ?cs)" using find_None_iff [of ?cs x] by simp
      with d have "x \<notin> set (allIds rest)" by auto
      then have r: "allIds (removeNodeFromTree rest x) = allIds rest" by (rule remove_absent_ids)
      have f: "filter (\<lambda>i. i \<notin> set (allIds [X])) (allIds rest) = allIds rest"
        using d sub by (auto simp: filter_id_conv)
      have nn: "node_id n \<notin> set (allIds [X])" using d sub by auto
      from Cons.IH(1)[OF L d(1)] Some XY
      have "allIds (removeNodeFromTree ?cs x) = filter (\<lambda>i. i \<notin> set (allIds [X])) (allIds ?cs)"
        by simp
      with r f nn rm show ?thesis by (simp add: allIds_Cons)
    next
      case None
      with False Cons.prems have fr: "findNodeDeepCopy rest x = Some X"
        by (auto simp: loadedChildren_def split: children.splits)
      from find_Some_ids [OF fr] obtain pre post
        where pp: "allIds rest = pre @ allIds [X] @ post" by blast
      then have sub: "set (allIds [X]) \<subseteq> set (allIds rest)" by auto
      from None have "x \<notin> set (allIds ?cs)" by (simp add: find_None_iff)
      then have r: "allIds (removeNodeFromTree ?cs x) = allIds ?cs" by (rule remove_absent_ids)
      have f: "filter (\<lambda>i. i \<notin> set (allIds [X])) (allIds ?cs) = allIds ?cs"
        using d sub by (auto simp: filter_id_conv)
      have nn: "node_id n \<notin> set (allIds [X])" using d sub by auto
      from Cons.IH(2)[OF d(2) fr] r f nn rm show ?thesis by (simp add: allIds_Cons)
    qed
  qed
qed

lemma remove_count:
  assumes "distinct (allIds tree)" and "findNodeDeepCopy tree x = Some X"
  shows "countNodes (removeNodeFromTree tree x) + countNodes [X] = countNodes tree"
proof -
  from find_Some_ids [OF assms(2)] obtain pre post
    where pp: "allIds tree = pre @ allIds [X] @ post" by blast
  with assms(1) have d: "distinct pre" "distinct (allIds [X])" "distinct post"
    "set pre \<inter> set (allIds [X]) = {}" "set post \<inter> set (allIds [X]) = {}"
    by auto
  have "filter (\<lambda>i. i \<notin> set (allIds [X])) pre = pre"
    "filter (\<lambda>i. i \<notin> set (allIds [X])) post = post"
    "filter (\<lambda>i. i \<notin> set (allIds [X])) (allIds [X]) = []"
    using d(4,5) by (auto simp: filter_id_conv filter_empty_conv)
  then have "filter (\<lambda>i. i \<notin> set (allIds [X])) (allIds tree) = pre @ post"
    unfolding pp by simp
  with remove_ids_filter [OF assms] have "allIds (removeNodeFromTree tree x) = pre @ post"
    by simp
  then have "length (allIds (removeNodeFromTree tree x)) = length pre + length post" by simp
  moreover from pp have "length (allIds tree) = length pre + length (allIds [X]) + length post"
    by simp
  ultimately show ?thesis by (simp add: countNodes_def allIds_def)
qed

text \<open>
  Claim C5: in a tree with globally unique ids (the data model's invariant), removing
  the node \<open>X\<close> with id \<open>x\<close> removes the ids of \<open>X\<close> and of all its descendants and
  no other, keeps the order of the rest, and the node count drops by 1 plus the
  number of descendants of \<open>X\<close>.
\<close>

theorem C5_removal_cascade:
  assumes "distinct (allIds tree)" and "findNodeDeepCopy tree x = Some X"
  shows "allIds (removeNodeFromTree tree x) = filter (\<lambda>i. i \<notin> set (allIds [X])) (allIds tree)
       \<and> countNodes (removeNodeFromTree tree x)
           = countNodes tree - (1 + countNodes (loadedChildren X))
       \<and> 1 + countNodes (loadedChildren X) \<le> countNodes tree"
proof -
  have "countNodes [X] = 1 + countNodes (loadedChildren X)"
    by (simp add: countNodes_def loadedChildren_def split: children.split)
  with remove_count [OF assms] remove_ids_filter [OF assms] show ?thesis by simp
qed

theorem C5_witness:
  "distinct (allIds tree_abcd)
   \<and> allIds (removeNodeFromTree tree_abcd ''b'') = [''a'', ''c'']
   \<and> countNodes tree_abcd = 4
   \<and> countNodes (removeNodeFromTree tree_abcd ''b'') = 2"
proof -
  have d: "distinct (allIds tree_abcd)" by (simp add: tree_abcd_def allIds_def)
  have f: "findNodeDeepCopy tree_abcd ''b'' =
      Some (Node ''b'' ''B''
              (Loaded [Node ''d'' ''D'' (Loaded []) (Some False) (Some False) (Some ''b'')])
              (Some False) (Some True) (Some ''a''))"
    by (simp add: tree_abcd_def)
  have c: "countNodes tree_abcd = 4" by (simp add: tree_abcd_def countNodes_def)
  have i: "allIds tree_abcd = [''a'', ''b'', ''d'', ''c'']" by (simp add: tree_abcd_def allIds_def)
  from C5_removal_cascade [OF d f] d c i show ?thesis
    by (simp add: loadedChildren_def countNodes_def allIds_def)
qed

section \<open>Insertion: claim C6\<close>

lemma updateNodeInTree_Nil [simp]: "updateNodeInTree [] i f = []"
  by simp

lemma updateNodeInTree_Cons [simp]:
  "updateNodeInTree (n # rest) i f =
     (if node_id n = i then f n
      else (case node_children n of
              Loaded cs \<Rightarrow> set_children (Loaded (updateNodeInTree cs i f)) n
            | _ \<Rightarrow> n)) # updateNodeInTree rest i f"
  by (simp split: children.split)

lemmas [simp del] = updateNodeInTree.simps

lemma set_children_same: "node_children n = c \<Longrightarrow> set_children c n = n"
  by (cases n) simp

lemma update_absent:
  "i \<notin> set (allIds tree) \<Longrightarrow> updateNodeInTree tree i f = tree"
  by (induction tree rule: tree_induct)
     (auto simp: allIds_Cons loadedChildren_def set_children_same split: children.splits)

lemma update_find:
  "findNodeDeepCopy tree i = Some P \<Longrightarrow> node_id (f P) = i \<Longrightarrow>
   findNodeDeepCopy (updateNodeInTree tree i f) i = Some (f P)"
proof (induction tree rule: tree_induct)
  case Nil
  then show ?case by simp
next
  case (Cons n rest)
  show ?case
  proof (cases "node_id n = i")
    case True
    with Cons.prems show ?thesis by simp
  next
    case False
    show ?thesis
    proof (cases "node_children n")
      case (Loaded cs)
      show ?thesis
      proof (cases "findNodeDeepCopy cs i")
        case None
        then have "updateNodeInTree cs i f = cs"
          by (simp add: update_absent find_None_iff)
        with None False Loaded Cons.prems Cons.IH(2) show ?thesis by simp
      next
        case (Some Q)
        with False Loaded Cons.prems have "Q = P" by simp
        with Some Cons.IH(1)[OF Loaded] Cons.prems(2)
        have "findNodeDeepCopy (updateNodeInTree cs i f) i = Some (f P)" by simp
        with False Loaded show ?thesis by simp
      qed
    qed (use False Cons in simp_all)
  qed
qed

text \<open>
  Claim C6: with parent id \<^verbatim>\<open>null\<close>, \<^verbatim>\<open>addNodeToTree\<close> appends the node (its
  \<^verbatim>\<open>parentId\<close> set to \<^verbatim>\<open>null\<close>) to the end of the root sequence; with the id of a
  node \<open>P\<close> of the tree, the node found under that id afterwards is \<open>P\<close> with the new
  node (its \<^verbatim>\<open>parentId\<close> set to the parent's id) appended to its loaded children,
  or to the empty sequence when they were absent or unloaded, and with
  \<^verbatim>\<open>hasChildren\<close> and \<^verbatim>\<open>isExpanded\<close> true; with an id that is not in the tree the
  tree is returned equal.
\<close>

theorem C6_addNodeToTree:
  "addNodeToTree tree None newNode = tree @ [set_parentId None newNode]
   \<and> (\<forall>P. findNodeDeepCopy tree pid = Some P \<longrightarrow>
          findNodeDeepCopy (addNodeToTree tree (Some pid) newNode) pid =
            Some (Node pid (node_name P)
                    (Loaded (loadedChildren P @ [set_parentId (Some pid) newNode]))
                    (Some True) (Some True) (node_parentId P)))
   \<and> (pid \<notin> set (allIds tree) \<longrightarrow> addNodeToTree tree (Some pid) newNode = tree)"
proof (intro conjI allI impI)
  show "addNodeToTree tree None newNode = tree @ [set_parentId None newNode]"
    by (simp add: addNodeToTree_def)
next
  fix P
  assume f: "findNodeDeepCopy tree pid = Some P"
  then have i: "node_id P = pid" by (rule find_Some_id)
  then have a: "appendChild newNode P =
      Node pid (node_name P) (Loaded (loadedChildren P @ [set_parentId (Some pid) newNode]))
        (Some True) (Some True) (node_parentId P)"
    by (cases P) (simp add: appendChild_def loadedChildren_def)
  then have "node_id (appendChild newNode P) = pid" by simp
  from update_find [of tree pid P "appendChild newNode", OF f this] a
  show "findNodeDeepCopy (addNodeToTree tree (Some pid) newNode) pid =
      Some (Node pid (node_name P) (Loaded (loadedChildren P @ [set_parentId (Some pid) newNode]))
        (Some True) (Some True) (node_parentId P))"
    by (simp add: addNodeToTree_def)
next
  assume "pid \<notin> set (allIds tree)"
  then show "addNodeToTree tree (Some pid) newNode = tree"
    by (simp add: addNodeToTree_def update_absent)
qed

theorem C6_witness:
  "findNodeDeepCopy tree_lazy ''a'' = Some (Node ''a'' ''A'' Unloaded (Some False) (Some True) None)
   \<and> findNodeDeepCopy (addNodeToTree tree_lazy (Some ''a'') node_x) ''a'' =
       Some (Node ''a'' ''A'' (Loaded [node_x]) (Some True) (Some True) None)
   \<and> ''zzz'' \<notin> set (allIds tree_lazy)
   \<and> addNodeToTree tree_lazy (Some ''zzz'') node_x = tree_lazy"
proof -
  have f: "findNodeDeepCopy tree_lazy ''a'' =
      Some (Node ''a'' ''A'' Unloaded (Some False) (Some True) None)"
    by (simp add: tree_lazy_def)
  have z: "''zzz'' \<notin> set (allIds tree_lazy)" by (simp add: tree_lazy_def allIds_def)
  from C6_addNodeToTree [of tree_lazy node_x "''a''"] f
  have 1: "findNodeDeepCopy (addNodeToTree tree_lazy (Some ''a'') node_x) ''a'' =
       Some (Node ''a'' ''A'' (Loaded [node_x]) (Some True) (Some True) None)"
    by (simp add: loadedChildren_def node_x_def)
  from C6_addNodeToTree [of tree_lazy node_x "''zzz''"] z
  have "addNodeToTree tree_lazy (Some ''zzz'') node_x = tree_lazy" by simp
  with f z 1 show ?thesis by simp
qed

section \<open>Lookup: claims C7 and C10\<close>

lemma visible_mono: "visible t n \<Longrightarrow> set t \<subseteq> set t' \<Longrightarrow> visible t' n"
  by (induction rule: visible.induct) (auto intro: visible.intros)

lemma visible_below:
  "visible cs n \<Longrightarrow> visible t p \<Longrightarrow> node_isExpanded p = Some True \<Longrightarrow>
   node_children p = Loaded cs \<Longrightarrow> visible t n"
  by (induction rule: visible.induct) (auto intro: visible.intros)

lemma visible_Nil [simp]: "\<not> visible [] n"
proof
  assume "visible [] n"
  then show False by (induction rule: visible.induct) auto
qed

lemma visible_Cons:
  "visible (m # rest) n \<longleftrightarrow>
     n = m
     \<or> (node_isExpanded m = Some True \<and> (\<exists>cs. node_children m = Loaded cs \<and> visible cs n))
     \<or> visible rest n"
proof
  assume "visible (m # rest) n"
  then show "n = m
     \<or> (node_isExpanded m = Some True \<and> (\<exists>cs. node_children m = Loaded cs \<and> visible cs n))
     \<or> visible rest n"
  proof (induction rule: visible.induct)
    case (root n)
    then show ?case by (auto intro: visible.root)
  next
    case (child p cs n)
    then show ?case by (auto intro: visible.intros)
  qed
next
  assume "n = m
     \<or> (node_isExpanded m = Some True \<and> (\<exists>cs. node_children m = Loaded cs \<and> visible cs n))
     \<or> visible rest n"
  then show "visible (m # rest) n"
  proof (elim disjE conjE exE)
    assume "n = m"
    then show ?thesis by (simp add: visible.root)
  next
    fix cs
    assume "node_isExpanded m = Some True" "node_children m = Loaded cs" "visible cs n"
    moreover have "visible (m # rest) m" by (simp add: visible.root)
    ultimately show ?thesis using visible_below by blast
  next
    assume "visible rest n"
    then show ?thesis by (rule visible_mono) auto
  qed
qed

lemma findLoop_found_iff:
  "findLoop nodeId parent siblings i tree \<noteq> None \<longleftrightarrow>
     (\<exists>n. visible tree n \<and> node_id n = nodeId)"
proof (induction tree arbitrary: parent siblings i rule: tree_induct)
  case Nil
  then show ?case by simp
next
  case (Cons m rest)
  show ?case
  proof (cases "node_children m")
    case (Loaded cs)
    with Cons.IH(1)[OF Loaded, of "Some m" cs 0] Cons.IH(2)[of parent siblings "Suc i"]
    show ?thesis by (auto simp: visible_Cons split: option.splits)
  next
    case Absent
    with Cons.IH(2)[of parent siblings "Suc i"] show ?thesis by (auto simp: visible_Cons)
  next
    case Unloaded
    with Cons.IH(2)[of parent siblings "Suc i"] show ?thesis by (auto simp: visible_Cons)
  qed
qed

lemma findLoop_node:
  "findLoop nodeId parent siblings i tree = Some loc \<Longrightarrow>
     visible tree (loc_node loc) \<and> node_id (loc_node loc) = nodeId"
proof (induction tree arbitrary: parent siblings i rule: tree_induct)
  case Nil
  then show ?case by simp
next
  case (Cons m rest)
  show ?case
  proof (cases "node_children m")
    case (Loaded cs)
    with Cons.prems Cons.IH(1)[OF Loaded, of "Some m" cs 0] Cons.IH(2)[of parent siblings "Suc i"]
    show ?thesis by (auto simp: visible_Cons split: option.splits if_splits)
  next
    case Absent
    with Cons.prems Cons.IH(2)[of parent siblings "Suc i"] show ?thesis
      by (auto simp: visible_Cons split: if_splits)
  next
    case Unloaded
    with Cons.prems Cons.IH(2)[of parent siblings "Suc i"] show ?thesis
      by (auto simp: visible_Cons split: if_splits)
  qed
qed

text \<open>
  Claim C7 as stated (a non-null id is found exactly when its node is reachable through
  expanded ancestors) fails for the empty string: it is non-null, falsy, and
  \<^verbatim>\<open>if (!nodeId) return null\<close> answers before the search.
\<close>

theorem C7_counterexample:
  "visible tree_empty_id (Node '''' ''A'' (Loaded []) (Some False) (Some False) None)
   \<and> findNodeAndLocation tree_empty_id (Some '''') None [] = None"
  by (simp add: tree_empty_id_def findNodeAndLocation_def visible.root)

text \<open>
  Claim C7, amended: \<^verbatim>\<open>findNodeAndLocation\<close> returns no location for a \<^verbatim>\<open>null\<close> or
  empty id; for a non-empty id it returns a location exactly when a node with that id
  is reachable from a root through ancestors that are all expanded with loaded
  children, and the node of the location is such a node.
\<close>

theorem C7_findNodeAndLocation:
  "findNodeAndLocation tree None parent siblings = None
   \<and> findNodeAndLocation tree (Some []) parent siblings = None
   \<and> (nodeId \<noteq> [] \<longrightarrow>
        ((\<exists>loc. findNodeAndLocation tree (Some nodeId) parent siblings = Some loc)
           \<longleftrightarrow> (\<exists>n. visible tree n \<and> node_id n = nodeId))
        \<and> (\<forall>loc. findNodeAndLocation tree (Some nodeId) parent siblings = Some loc \<longrightarrow>
              visible tree (loc_node loc) \<and> node_id (loc_node loc) = nodeId))"
  using findLoop_found_iff [of nodeId parent siblings 0 tree]
    findLoop_node [of nodeId parent siblings 0 tree]
  by (auto simp: findNodeAndLocation_def)

theorem C7_witness:
  "findNodeAndLocation tree_collapsed (Some ''a'') None [] = None
   \<and> \<not> (\<exists>n. visible tree_collapsed n \<and> node_id n = ''a'')
   \<and> (\<exists>n. visible tree_collapsed n \<and> node_id n = ''r'')"
proof -
  have a: "findNodeAndLocation tree_collapsed (Some ''a'') None [] = None"
    by (simp add: tree_collapsed_def findNodeAndLocation_def)
  have r: "\<exists>loc. findNodeAndLocation tree_collapsed (Some ''r'') None [] = Some loc"
    by (simp add: tree_collapsed_def findNodeAndLocation_def)
  from C7_findNodeAndLocation [of tree_collapsed None "[]" "''a''"] a
  have 1: "\<not> (\<exists>n. visible tree_collapsed n \<and> node_id n = ''a'')" by simp
  from C7_findNodeAndLocation [of tree_collapsed None "[]" "''r''"] r
  have 2: "\<exists>n. visible tree_collapsed n \<and> node_id n = ''r''" by simp
  from a 1 2 show ?thesis by simp
qed

text \<open>
  What a location holds. A hit in the searched sequence itself carries the \<open>parent\<close> and
  \<open>siblings\<close> arguments of the call; a hit further down carries the node above it and
  that node's loaded children, and then \<open>siblings ! index\<close> is the node.
\<close>

lemma findLoop_location:
  "findLoop nodeId parent siblings i tree = Some loc \<Longrightarrow>
     (loc_parent loc = parent \<and> loc_siblings loc = siblings \<and> i \<le> loc_index loc
        \<and> loc_index loc - i < length tree \<and> tree ! (loc_index loc - i) = loc_node loc)
     \<or> (\<exists>p. loc_parent loc = Some p \<and> node_children p = Loaded (loc_siblings loc)
           \<and> node_isExpanded p = Some True
           \<and> loc_index loc < length (loc_siblings loc)
           \<and> loc_siblings loc ! loc_index loc = loc_node loc)"
proof (induction tree arbitrary: parent siblings i rule: tree_induct)
  case Nil
  then show ?case by simp
next
  case (Cons m rest)
  show ?case
  proof (cases "node_id m = nodeId")
    case True
    with Cons.prems show ?thesis by auto
  next
    case False
    have tl: ?thesis if "findLoop nodeId parent siblings (Suc i) rest = Some loc"
      using Cons.IH(2)[OF that] by (auto simp: Suc_diff_le)
    show ?thesis
    proof (cases "node_children m")
      case (Loaded cs)
      show ?thesis
      proof (cases "node_isExpanded m = Some True")
        case True
        show ?thesis
        proof (cases "findLoop nodeId (Some m) cs 0 cs")
          case None
          with False Loaded True Cons.prems tl show ?thesis by simp
        next
          case (Some found)
          with False Loaded True Cons.prems have "found = loc" by simp
          with Cons.IH(1)[OF Loaded, of "Some m" cs 0] Some Loaded True
          show ?thesis by auto
        qed
      next
        case nexp: False
        with False Loaded Cons.prems tl show ?thesis by simp
      qed
    next
      case Absent
      with False Cons.prems tl show ?thesis by simp
    next
      case Unloaded
      with False Cons.prems tl show ?thesis by simp
    qed
  qed
qed

text \<open>
  Claim C10 at a root node: the call with the default arguments (\<^verbatim>\<open>parent = null\<close>,
  \<^verbatim>\<open>siblings = []\<close>) returns the default \<^verbatim>\<open>[]\<close> as siblings, not the root sequence,
  so there is no \<^verbatim>\<open>siblings[index]\<close>.
\<close>

theorem C10_root_location:
  "findNodeAndLocation tree_single (Some ''a'') None [] =
     Some \<lparr>loc_node = Node ''a'' ''A'' (Loaded []) (Some False) (Some False) None,
           loc_parent = None, loc_index = 0, loc_siblings = []\<rparr>"
  by (simp add: tree_single_def findNodeAndLocation_def)

section \<open>Drag and drop: claims C1, C2 and C8\<close>

lemma findDescendant_iff: "findDescendant d tree \<longleftrightarrow> d \<in> set (allIds tree)"
  by (induction tree rule: tree_induct)
     (auto simp: allIds_Cons loadedChildren_def split: children.splits)

text \<open>
  A drop onto a descendant of the dragged node is rejected when the lookup reaches the
  dragged node, that is when all its ancestors are expanded.
\<close>

lemma drop_on_descendant_rejected:
  assumes "findNodeAndLocation tree (Some a) None [] = Some loc"
    and "d \<in> set (allIds (loadedChildren (loc_node loc)))"
    and "d \<noteq> []"
  shows "dropUpdater tree a (Some d) pos = Inr tree"
proof -
  from assms have "isAncestor a d tree"
    by (auto simp: isAncestor_def loadedChildren_def findDescendant_iff split: children.splits)
  with assms(3) show ?thesis by (simp add: dropUpdater_def split: option.splits)
qed

text \<open>
  The TypeError branch is never taken, since the parent of a location has loaded
  children: every drop returns, with the drag cleared.
\<close>

lemma siblingTarget_returns: "\<exists>r. siblingTarget tree target pos = Inr r"
proof (cases "truthyId target")
  case None
  then show ?thesis by (simp add: siblingTarget_def)
next
  case (Some t)
  then have t: "t \<noteq> []" by (cases target) (auto split: if_splits)
  show ?thesis
  proof (cases "findNodeAndLocation tree (Some t) None []")
    case None
    with Some show ?thesis by (simp add: siblingTarget_def)
  next
    case loc: (Some loc)
    with t have "findLoop t None [] 0 tree = Some loc" by (simp add: findNodeAndLocation_def)
    from findLoop_location [OF this]
    have d: "loc_parent loc = None \<or> (\<exists>p. loc_parent loc = Some p \<and> node_children p = Loaded (loc_siblings loc))"
      by auto
    then show ?thesis
    proof
      assume "loc_parent loc = None"
      with Some loc show ?thesis by (simp add: siblingTarget_def)
    next
      assume "\<exists>p. loc_parent loc = Some p \<and> node_children p = Loaded (loc_siblings loc)"
      then obtain p where "loc_parent loc = Some p" "node_children p = Loaded (loc_siblings loc)"
        by blast
      with Some loc show ?thesis by (cases "node_id p = []") (simp_all add: siblingTarget_def)
    qed
  qed
qed


lemma insertDragged_returns: "\<exists>r. insertDragged tree n target pos = Inr r"
proof (cases "if pos = Child then truthyId target else None")
  case (Some t)
  then show ?thesis
    by (cases "findNodeAndLocation tree (Some t) None []") (simp_all add: insertDragged_def)
next
  case None
  from siblingTarget_returns [of tree target pos] obtain s q i
    where "siblingTarget tree target pos = Inr (s, q, i)" by (metis prod_cases3)
  with None show ?thesis
    by (cases "truthyId q") (simp_all add: insertDragged_def Let_def)
qed

lemma dropUpdater_returns: "\<exists>r. dropUpdater tree d target pos = Inr r"
proof (cases "findNodeDeepCopy tree d")
  case None
  then show ?thesis by (simp add: dropUpdater_def)
next
  case (Some n)
  with insertDragged_returns [of "removeNodeFromTree tree d" n target pos] show ?thesis
    by (auto simp: dropUpdater_def)
qed

lemma handleDrop_returns:
  "\<exists>tree'. handleDrop st target pos = Inr \<lparr>treeData = tree', draggedItem = None\<rparr>"
proof (cases "draggedItem st")
  case None
  then have "handleDrop st target pos = Inr \<lparr>treeData = treeData st, draggedItem = None\<rparr>"
    by (cases st) (simp add: handleDrop_def)
  then show ?thesis by blast
next
  case (Some d)
  show ?thesis
  proof (cases "Some (drag_id d) = target")
    case True
    with Some have "handleDrop st target pos = Inr \<lparr>treeData = treeData st, draggedItem = None\<rparr>"
      by (cases st) (simp add: handleDrop_def)
    then show ?thesis by blast
  next
    case False
    from dropUpdater_returns [of "treeData st" "drag_id d" target pos] obtain r
      where "dropUpdater (treeData st) (drag_id d) target pos = Inr r" by blast
    with Some False show ?thesis by (simp add: handleDrop_def)
  qed
qed

text \<open>
  Claim C1 at a dragged node under a collapsed ancestor: in \<open>tree_collapsed\<close> the root R
  is collapsed, A is its child and D is the child of A. Dropping A onto its descendant
  D is not rejected: as a child drop it deletes A and D, as a sibling drop it replaces
  the whole tree by A.
\<close>

theorem C1_collapsed_ancestor:
  "handleDrop \<lparr>treeData = tree_collapsed, draggedItem = drag ''a'' (Some ''r'')\<rparr> (Some ''d'') Child
     = Inr \<lparr>treeData = [Node ''r'' ''R'' (Loaded []) (Some False) (Some False) None],
            draggedItem = None\<rparr>
   \<and> handleDrop \<lparr>treeData = tree_collapsed, draggedItem = drag ''a'' (Some ''r'')\<rparr> (Some ''d'') Above
     = Inr \<lparr>treeData =
              [Node ''a'' ''A''
                 (Loaded [Node ''d'' ''D'' (Loaded []) (Some False) (Some False) (Some ''a'')])
                 (Some True) (Some True) None],
            draggedItem = None\<rparr>"
  by (simp add: handleDrop_def dropUpdater_def insertDragged_def siblingTarget_def
      isAncestor_def findNodeAndLocation_def tree_collapsed_def drag_def splice_at_def)

text \<open>
  Claim C2 at a target id that is not in the tree: a child drop returns the tree
  without the dragged node, a sibling drop returns the dragged node alone.
\<close>

theorem C2_absent_target:
  "''zzz'' \<notin> set (allIds tree_roots)
   \<and> handleDrop \<lparr>treeData = tree_roots, draggedItem = drag ''a'' None\<rparr> (Some ''zzz'') Child
     = Inr \<lparr>treeData = [Node ''b'' ''B'' (Loaded []) (Some False) (Some False) None],
            draggedItem = None\<rparr>
   \<and> handleDrop \<lparr>treeData = tree_roots, draggedItem = drag ''a'' None\<rparr> (Some ''zzz'') Below
     = Inr \<lparr>treeData = [Node ''a'' ''A'' (Loaded []) (Some False) (Some False) None],
            draggedItem = None\<rparr>"
  by (simp add: handleDrop_def dropUpdater_def insertDragged_def siblingTarget_def
      isAncestor_def findNodeAndLocation_def tree_roots_def drag_def splice_at_def allIds_def)

lemma set_parentId_same: "node_parentId n = p \<Longrightarrow> set_parentId p n = n"
  by (cases n) simp

text \<open>
  Claim C8: the tree is one expanded root A with loaded children \<open>[B, C]\<close>, B and C
  being any two nodes that fit the data model there (parent id of B is A's id, ids
  unique, \<^verbatim>\<open>hasChildren\<close> of C's subtree consistent with its loaded children). Dragging
  B and dropping it on C with position \<^verbatim>\<open>above\<close> returns the same tree: A's children
  are \<open>[B, C]\<close> again, and the drag is cleared.
\<close>

theorem C8_drop_above_next_sibling:
  assumes ids: "a \<noteq> []" "c \<noteq> []" "a \<noteq> b" "a \<noteq> c"
    and B: "node_id B = b" "node_parentId B = Some a" "c \<notin> set (allIds [B])"
    and C: "node_id C = c" "b \<notin> set (allIds [C])"
      "\<forall>n\<in>set (allNodes [C]). hasChildrenRecomputed n"
  shows "handleDrop
           \<lparr>treeData = [Node a nm (Loaded [B, C]) (Some True) (Some True) pa],
            draggedItem = Some \<lparr>drag_id = b, drag_parentId = Some a\<rparr>\<rparr>
           (Some c) Above
         = Inr \<lparr>treeData = [Node a nm (Loaded [B, C]) (Some True) (Some True) pa],
                draggedItem = None\<rparr>"
proof -
  let ?A = "Node a nm (Loaded [B, C]) (Some True) (Some True) pa"
  let ?A' = "Node a nm (Loaded [C]) (Some True) (Some True) pa"
  from B have bc: "b \<noteq> c" by (auto simp: allIds_Cons)
  have found: "findNodeDeepCopy [?A] b = Some B"
    using ids B by simp
  have "c \<notin> set (allIds (loadedChildren B))"
    using B(3) by (simp add: allIds_Cons)
  then have notanc: "\<not> isAncestor b c [?A]"
    using ids B
    by (auto simp: isAncestor_def findNodeAndLocation_def findDescendant_iff loadedChildren_def
        split: children.splits)
  have "removeNodeFromTree [C] b = [C]"
    using C by (intro remove_absent_normalized) simp_all
  then have removed: "removeNodeFromTree [?A] b = [?A']"
    using ids B C bc by simp
  have loc: "findNodeAndLocation [?A'] (Some c) None [] =
      Some \<lparr>loc_node = C, loc_parent = Some ?A', loc_index = 0, loc_siblings = [C]\<rparr>"
    using ids C by (simp add: findNodeAndLocation_def)
  have target: "siblingTarget [?A'] (Some c) Above = Inr ([C], Some a, 0)"
    using ids loc by (simp add: siblingTarget_def)
  have "insertDragged [?A'] B (Some c) Above = Inr [?A]"
    using ids B target by (simp add: insertDragged_def splice_at_def set_parentId_same)
  with found notanc removed ids bc show ?thesis
    by (simp add: handleDrop_def dropUpdater_def)
qed

theorem C8_witness:
  "handleDrop \<lparr>treeData = tree_abc, draggedItem = Some \<lparr>drag_id = ''b'', drag_parentId = Some ''a''\<rparr>\<rparr>
     (Some ''c'') Above
   = Inr \<lparr>treeData = tree_abc, draggedItem = None\<rparr>"
  unfolding tree_abc_def
  by (rule C8_drop_above_next_sibling) (simp_all add: allIds_def hasChildrenRecomputed_def)

section \<open>Update locality: claim C3\<close>




lemma erase_id [simp]: "node_id (erase n) = h_id n"
  by (cases n rule: erase.cases) simp_all

lemma erase_children:
  "node_children (erase n) =
     (case h_children n of HAbsent \<Rightarrow> Absent | HUnloaded \<Rightarrow> Unloaded
      | HLoaded cs \<Rightarrow> Loaded (map erase cs))"
  by (cases n rule: erase.cases) simp_all

lemma erase_rebuilt:
  "h_children n = HLoaded cs \<Longrightarrow>
   erase (HNode r (h_id n) (h_name n) (HLoaded cs') (h_isExpanded n) (h_hasChildren n) (h_parentId n))
     = set_children (Loaded (map erase cs')) (erase n)"
  by (cases n) simp

text \<open>On values the address-passing function is \<^verbatim>\<open>updateNodeInTree\<close> of the previous sections.\<close>

lemma update_heap_erase:
  "\<forall>m. erase (f m) = g (erase m) \<Longrightarrow>
   erase (fst (updateCallback n i f next)) =
           (if node_id (erase n) = i then g (erase n)
            else (case node_children (erase n) of
                    Loaded cs \<Rightarrow> set_children (Loaded (updateNodeInTree cs i g)) (erase n)
                  | _ \<Rightarrow> erase n))"
  "\<forall>m. erase (f m) = g (erase m) \<Longrightarrow>
   map erase (fst (updateNodeInTree_heap t i f next)) = updateNodeInTree (map erase t) i g"
proof (induction n i f "next" and t i f "next" rule: updateCallback_updateNodeInTree_heap.induct)
  case (1 n nodeId updater "next")
  show ?case
  proof (cases "h_children n")
    case (HLoaded cs)
    with 1 show ?thesis
      by (cases n) (auto split: prod.splits)
  qed (use 1 in \<open>simp_all add: erase_children\<close>)
next
  case (2 nodeId updater "next")
  show ?case by simp
next
  case (3 n rest nodeId updater "next")
  obtain n' k where c: "updateCallback n nodeId updater next = (n', k)" by fastforce
  obtain rest' k2 where r: "updateNodeInTree_heap rest nodeId updater k = (rest', k2)" by fastforce
  from 3(1) 3(3) c have "erase n' = (if node_id (erase n) = nodeId then g (erase n)
            else (case node_children (erase n) of
                    Loaded cs \<Rightarrow> set_children (Loaded (updateNodeInTree cs nodeId g)) (erase n)
                  | _ \<Rightarrow> erase n))" by simp
  moreover from 3(2) [OF c [symmetric] 3(3)] r
  have "map erase rest' = updateNodeInTree (map erase rest) nodeId g" by simp
  ultimately show ?case using c r by (simp del: updateCallback.simps)
qed








end
